theory Spec2Isabelle
  imports Main
begin

section \<open>Channels, variables and contexts\<close>

text \<open>
  A Go channel of type \<open>chan struct{}\<close> that is only ever closed (never sent on) is
  identified by a number; the world records which channels are closed. A receive from
  such a channel is ready exactly when the channel is closed. Pointers to variables
  (\<open>*Var[T]\<close>) and contexts are numbers too: two pointers are the same object exactly
  when the numbers are equal.
\<close>

type_synonym chan = nat

type_synonym var_id = nat

type_synonym ctx_id = nat

text \<open>
  The world: the heap of \<open>Var\<close> objects (each holds its data and the channel of its
  current generation), the contexts (each with the channel that \<open>Done()\<close> or
  \<open>Stopping()\<close> returns; a context that can never be cancelled is one whose channel
  is never closed), the closed channels, the allocators, and the goroutines blocked in
  \<open>reflect.Select\<close> (the channels of their cases and the channel they close when
  one case is ready).
\<close>

record 'v world =
  vars :: "var_id \<rightharpoonup> ('v \<times> chan)"
  ctxs :: "ctx_id \<rightharpoonup> chan"
  closed :: "chan set"
  next_chan :: chan
  next_var :: var_id
  next_ctx :: ctx_id
  goroutines :: "(chan list \<times> chan) list"

definition empty_world :: "'v world" where
  "empty_world =
     \<lparr>vars = Map.empty, ctxs = Map.empty, closed = {}, next_chan = 0, next_var = 0,
      next_ctx = 0, goroutines = []\<rparr>"

text \<open>\<open>make(chan struct{})\<close> and \<open>close(ch)\<close>.\<close>

definition make_chan :: "'v world \<Rightarrow> chan \<times> 'v world" where
  "make_chan w = (next_chan w, w\<lparr>next_chan := Suc (next_chan w)\<rparr>)"

definition close_chan :: "chan \<Rightarrow> 'v world \<Rightarrow> 'v world" where
  "close_chan c w = w\<lparr>closed := insert c (closed w)\<rparr>"

text \<open>\<open>context.WithCancel\<close> and the cancel function it returns.\<close>

definition WithCancel :: "'v world \<Rightarrow> ctx_id \<times> 'v world" where
  "WithCancel w =
     (let (c, w1) = make_chan w
      in (next_ctx w1, w1\<lparr>ctxs := (ctxs w1)(next_ctx w1 \<mapsto> c), next_ctx := Suc (next_ctx w1)\<rparr>))"

definition Cancel :: "ctx_id \<Rightarrow> 'v world \<Rightarrow> 'v world option" where
  "Cancel k w = (case ctxs w k of None \<Rightarrow> None | Some c \<Rightarrow> Some (close_chan c w))"

subsection \<open>The reactive cell\<close>

text \<open>
  Modelled from the spec: the type \<open>notify.Var\<close> (its file is not among the sources;
  only its callers are). The spec's section 4.1 gives \<open>Create\<close>, \<open>Get\<close>, \<open>Set\<close> and
  \<open>Update\<close>: \<open>Create\<close> builds a cell holding the initial value with an unfired signal;
  \<open>Get\<close> returns the current value and its generation's signal; \<open>Set\<close> replaces the
  value unconditionally, fires the previous generation's signal and installs a fresh
  unfired one; \<open>Update\<close> applies the transform, leaves the cell alone when the transform
  fails and returns the failure with the unchanged value as both old and new, and on
  success behaves like \<open>Set\<close> and also returns the prior value. A call through a
  pointer that is no allocated variable has no result (\<open>None\<close>).
\<close>

definition VarOf :: "'v \<Rightarrow> 'v world \<Rightarrow> var_id \<times> 'v world" where
  "VarOf initial w =
     (let (c, w1) = make_chan w
      in (next_var w1,
          w1\<lparr>vars := (vars w1)(next_var w1 \<mapsto> (initial, c)), next_var := Suc (next_var w1)\<rparr>))"

definition Get :: "'v world \<Rightarrow> var_id \<Rightarrow> ('v \<times> chan) option" where
  "Get w v = vars w v"

definition Set_var :: "var_id \<Rightarrow> 'v \<Rightarrow> 'v world \<Rightarrow> 'v world option" where
  "Set_var v x w =
     (case vars w v of
        None \<Rightarrow> None
      | Some (old, ch) \<Rightarrow>
          (let (fresh, w1) = make_chan w
           in Some (close_chan ch (w1\<lparr>vars := (vars w1)(v \<mapsto> (x, fresh))\<rparr>))))"

definition Update :: "var_id \<Rightarrow> ('v \<Rightarrow> 'e + 'v) \<Rightarrow> 'v world \<Rightarrow> (('v \<times> 'v \<times> 'e option) \<times> 'v world) option" where
  "Update v transform w =
     (case vars w v of
        None \<Rightarrow> None
      | Some (old, ch) \<Rightarrow>
          (case transform old of
             Inl e \<Rightarrow> Some ((old, old, Some e), w)
           | Inr new \<Rightarrow>
               (case Set_var v new w of
                  None \<Rightarrow> None
                | Some w1 \<Rightarrow> Some ((new, old, None), w1))))"

text \<open>
  Channels are allocated in increasing order: every channel in use lies below the
  allocator, so a newly made channel is open and differs from every channel in use.
\<close>

definition wf_world :: "'v world \<Rightarrow> bool" where
  "wf_world w \<longleftrightarrow>
     (\<forall>v x c. vars w v = Some (x, c) \<longrightarrow> c < next_chan w) \<and>
     (\<forall>k c. ctxs w k = Some c \<longrightarrow> c < next_chan w) \<and>
     (\<forall>c. c \<in> closed w \<longrightarrow> c < next_chan w) \<and>
     (\<forall>cs r. (cs, r) \<in> set (goroutines w) \<longrightarrow> r < next_chan w)"

section \<open>The aggregation\<close>

text \<open>
  \<open>Aggregation.mu.m\<close>: the Go map from variable to the channel captured at
  registration. The lock only makes each operation atomic; each operation below is one
  atomic step.
\<close>

record aggregation =
  mu_m :: "var_id \<rightharpoonup> chan"

definition NewAggregation :: aggregation where
  "NewAggregation = \<lparr>mu_m = Map.empty\<rparr>"

text \<open>\<open>Aggregate\<close>: \<open>ret, ch := v.Get(); agg.mu.m[v] = ch; return ret\<close>.\<close>

definition Aggregate :: "aggregation \<Rightarrow> var_id \<Rightarrow> 'v world \<Rightarrow> ('v \<times> aggregation) option" where
  "Aggregate agg v w =
     (case Get w v of
        None \<Rightarrow> None
      | Some (ret, ch) \<Rightarrow> Some (ret, agg\<lparr>mu_m := (mu_m agg)(v \<mapsto> ch)\<rparr>))"

text \<open>
  A \<open>range\<close> over a Go map visits every key once, in an order the runtime picks. The
  order is a parameter of the operations that range over the map; \<open>range_order\<close> says
  that a list is such an order.
\<close>

definition range_order :: "aggregation \<Rightarrow> var_id list \<Rightarrow> bool" where
  "range_order agg ks \<longleftrightarrow> distinct ks \<and> set ks = dom (mu_m agg)"

text \<open>
  The loop of \<open>Choose\<close>: the first key, in the order of the range, whose channel is
  ready to receive from (closed).
\<close>

fun choose_loop :: "var_id list \<Rightarrow> (var_id \<rightharpoonup> chan) \<Rightarrow> chan set \<Rightarrow> var_id option" where
  "choose_loop [] mp cl = None"
| "choose_loop (k # ks) mp cl =
     (case mp k of
        None \<Rightarrow> choose_loop ks mp cl
      | Some v \<Rightarrow> if v \<in> cl then Some k else choose_loop ks mp cl)"

definition Choose :: "var_id list \<Rightarrow> aggregation \<Rightarrow> 'v world \<Rightarrow> var_id option \<times> aggregation" where
  "Choose order agg w =
     (case choose_loop order (mu_m agg) (closed w) of
        None \<Rightarrow> (None, agg)
      | Some k \<Rightarrow> (Some k, agg\<lparr>mu_m := (mu_m agg)(k := None)\<rparr>))"

text \<open>\<open>Len\<close>: \<open>len(a.mu.m)\<close>, the number of keys.\<close>

definition Len :: "aggregation \<Rightarrow> nat" where
  "Len agg = card (dom (mu_m agg))"

text \<open>
  \<open>Updated\<close>: \<open>toWatch\<close> collects the map's values; the loop returns a closed channel
  at the first value that is already closed; otherwise a goroutine is started that
  selects over the context's \<open>Done()\<close> channel and the watched channels and closes the
  returned channel afterwards. The context's channel is only put into \<open>cases[0]\<close>; the
  loop does not look at it. The call is one step of the model: the map is read under
  the lock, and a channel that is closed stays closed, so what the loop finds closed
  at the call it finds closed later.
\<close>

fun updated_loop :: "chan list \<Rightarrow> chan set \<Rightarrow> bool" where
  "updated_loop [] cl = False"
| "updated_loop (ch # chs) cl = (if ch \<in> cl then True else updated_loop chs cl)"

definition Updated :: "var_id list \<Rightarrow> aggregation \<Rightarrow> ctx_id \<Rightarrow> 'v world \<Rightarrow> (chan \<times> 'v world) option" where
  "Updated order agg ctx w =
     (case ctxs w ctx of
        None \<Rightarrow> None
      | Some done \<Rightarrow>
          (let toWatch = List.map_filter (mu_m agg) order;
               (ret, w1) = make_chan w
           in if updated_loop toWatch (closed w1)
              then Some (ret, close_chan ret w1)
              else Some (ret, w1\<lparr>goroutines := goroutines w1 @ [(done # toWatch, ret)]\<rparr>)))"

text \<open>
  One scheduling of the \<open>i\<close>-th blocked goroutine: when one of its cases is ready,
  \<open>reflect.Select\<close> returns, the deferred \<open>close(ret)\<close> runs and the goroutine ends;
  otherwise it stays blocked.
\<close>

definition select_ready :: "chan list \<Rightarrow> chan set \<Rightarrow> bool" where
  "select_ready cases cl = list_ex (\<lambda>c. c \<in> cl) cases"

definition goroutine_step :: "nat \<Rightarrow> 'v world \<Rightarrow> 'v world" where
  "goroutine_step i w =
     (if i < length (goroutines w) then
        (let (cases, ret) = goroutines w ! i
         in if select_ready cases (closed w)
            then close_chan ret (w\<lparr>goroutines := take i (goroutines w) @ drop (Suc i) (goroutines w)\<rparr>)
            else w)
      else w)"

section \<open>Runs of operations\<close>

text \<open>
  What other goroutines can do to the world between two operations on the
  aggregation: create, set or update a variable, create or cancel a context, and let
  the scheduler run a blocked goroutine.
\<close>

datatype ('v, 'e) event =
  EvVarOf 'v
| EvSet var_id 'v
| EvUpdate var_id "'v \<Rightarrow> 'e + 'v"
| EvWithCancel
| EvCancel ctx_id
| EvSchedule nat

fun apply_event :: "('v, 'e) event \<Rightarrow> 'v world \<Rightarrow> 'v world option" where
  "apply_event (EvVarOf x) w = Some (snd (VarOf x w))"
| "apply_event (EvSet v x) w = Set_var v x w"
| "apply_event (EvUpdate v f) w = map_option snd (Update v f w)"
| "apply_event EvWithCancel w = Some (snd (WithCancel w))"
| "apply_event (EvCancel k) w = Cancel k w"
| "apply_event (EvSchedule i) w = Some (goroutine_step i w)"


text \<open>
  The operations on one aggregation, interleaved with events of the world, and what
  each returns. A run has no result when an operation goes through a pointer that is
  no allocated object.
\<close>

datatype ('v, 'e) op =
  OpWorld "('v, 'e) event"
| OpAggregate var_id
| OpChoose "var_id list"
| OpLen
| OpUpdated "var_id list" ctx_id

datatype 'v result =
  RUnit
| RValue 'v
| RHandle "var_id option"
| RLen nat
| RChan chan

fun exec :: "('v, 'e) op \<Rightarrow> aggregation \<times> 'v world \<Rightarrow> ('v result \<times> aggregation \<times> 'v world) option" where
  "exec (OpWorld ev) (agg, w) = map_option (\<lambda>w1. (RUnit, agg, w1)) (apply_event ev w)"
| "exec (OpAggregate v) (agg, w) = map_option (\<lambda>(x, agg1). (RValue x, agg1, w)) (Aggregate agg v w)"
| "exec (OpChoose order) (agg, w) = (case Choose order agg w of (h, agg1) \<Rightarrow> Some (RHandle h, agg1, w))"
| "exec OpLen (agg, w) = Some (RLen (Len agg), agg, w)"
| "exec (OpUpdated order ctx) (agg, w) = map_option (\<lambda>(ret, w1). (RChan ret, agg, w1)) (Updated order agg ctx w)"

fun run :: "('v, 'e) op list \<Rightarrow> aggregation \<times> 'v world \<Rightarrow> ('v result list \<times> aggregation \<times> 'v world) option" where
  "run [] st = Some ([], st)"
| "run (x # xs) st =
     (case exec x st of
        None \<Rightarrow> None
      | Some (r, st1) \<Rightarrow>
          (case run xs st1 of None \<Rightarrow> None | Some (rs, st2) \<Rightarrow> Some (r # rs, st2)))"

section \<open>Waiting for a variable to change\<close>








section \<open>The invariant of a returned channel, and concrete inputs\<close>


text \<open>
  A world with one variable, number 0, holding 5 with the open channel 0; used to
  evaluate the theorems at a concrete input.
\<close>

definition world_one :: "int world" where
  "world_one = snd (VarOf 5 empty_world)"

text \<open>
  The registry after registering variable 0 in \<open>world_one\<close>, and the world after
  that variable was set to 6.
\<close>

definition agg_one :: aggregation where
  "agg_one = \<lparr>mu_m = [0 \<mapsto> 0]\<rparr>"

definition world_set :: "int world" where
  "world_set = the (Set_var 0 6 world_one)"

text \<open>The registry after variable 0 was registered once more in \<open>world_set\<close>.\<close>

definition agg_two :: aggregation where
  "agg_two = \<lparr>mu_m = [0 \<mapsto> Suc 0]\<rparr>"

text \<open>A world with one context, number 0 with channel 0, that has been cancelled.\<close>

definition world_cancelled :: "int world" where
  "world_cancelled = the (Cancel 0 (snd (WithCancel empty_world)))"

text \<open>The world \<open>world_set\<close> with a context, number 0, that is open.\<close>

definition world_set_ctx :: "int world" where
  "world_set_ctx = snd (WithCancel world_set)"






section \<open>The cell's operations\<close>

lemma Set_var_Some:
  "vars w v = Some (old, ch) \<Longrightarrow>
   Set_var v x w =
     Some (w\<lparr>next_chan := Suc (next_chan w), vars := (vars w)(v \<mapsto> (x, next_chan w)),
             closed := insert ch (closed w)\<rparr>)"
  by (simp add: Set_var_def make_chan_def close_chan_def)

text \<open>
  C9. Every \<open>Set\<close> moves the cell to a new generation, whatever the value \<open>y\<close> it
  stores, the value \<open>x\<close> that the cell already holds included: the cell then holds
  \<open>y\<close> with a new, open signal, and the signal of the previous generation is fired.
\<close>

theorem Set_always_fires:
  assumes "wf_world w" and "Get w v = Some (x, ch)"
  shows "\<exists>w' ch'. Set_var v y w = Some w' \<and> Get w' v = Some (y, ch') \<and>
           ch' \<noteq> ch \<and> ch' \<notin> closed w' \<and> ch \<in> closed w'"
proof -
  from assms have v: "vars w v = Some (x, ch)" by (simp add: Get_def)
  from assms v have lt: "ch < next_chan w" by (auto simp: wf_world_def)
  from assms have op: "next_chan w \<notin> closed w" by (auto simp: wf_world_def)
  from v lt op show ?thesis
    by (auto simp: Set_var_Some Get_def)
qed

lemma world_one_eq:
  "world_one =
     \<lparr>vars = [0 \<mapsto> (5, 0)], ctxs = Map.empty, closed = {}, next_chan = Suc 0,
      next_var = Suc 0, next_ctx = 0, goroutines = []\<rparr>"
  by (simp add: world_one_def VarOf_def make_chan_def empty_world_def)

lemma wf_world_one: "wf_world world_one"
  by (simp add: world_one_eq wf_world_def)

theorem Set_always_fires_witness:
  "wf_world world_one \<and> Get world_one 0 = Some (5, 0) \<and>
   (\<exists>w' ch'. Set_var 0 5 world_one = Some w' \<and> Get w' 0 = Some (5, ch') \<and>
      ch' \<noteq> 0 \<and> ch' \<notin> closed w' \<and> 0 \<in> closed w')"
proof -
  have g: "Get world_one 0 = Some (5, 0)"
    by (simp add: world_one_eq Get_def)
  from Set_always_fires [OF wf_world_one g, of 5] wf_world_one g show ?thesis
    by simp
qed

text \<open>
  C5. When the transform of an \<open>Update\<close> fails, the world is left as it was (the
  cell's value and signal, and the set of fired signals, so no signal from an earlier
  \<open>Get\<close> fires), and the failure is returned with the unchanged value as both new
  and old.
\<close>

theorem Update_failure_unchanged:
  assumes "Get w v = Some (x, ch)" and "transform x = Inl e"
  shows "\<exists>w'. Update v transform w = Some ((x, x, Some e), w') \<and>
           Get w' v = Some (x, ch) \<and> closed w' = closed w \<and> w' = w"
  using assms by (simp add: Update_def Get_def)

theorem Update_failure_unchanged_witness:
  "Get world_one 0 = Some (5, 0) \<and> (\<lambda>n::int. Inl ''bad'' :: string + int) 5 = Inl ''bad'' \<and>
   (\<exists>w'. Update 0 (\<lambda>n. Inl ''bad'') world_one = Some ((5, 5, Some ''bad''), w') \<and>
      Get w' 0 = Some (5, 0) \<and> closed w' = closed world_one \<and> w' = world_one)"
proof -
  have g: "Get world_one 0 = Some (5, 0)"
    by (simp add: world_one_eq Get_def)
  have t: "(\<lambda>n::int. Inl ''bad'' :: string + int) 5 = Inl ''bad''"
    by simp
  from Update_failure_unchanged [OF g t] g show ?thesis
    by simp
qed

section \<open>Choosing a changed variable\<close>

lemma choose_loop_None:
  "(\<And>k c. mp k = Some c \<Longrightarrow> c \<notin> cl) \<Longrightarrow> choose_loop ks mp cl = None"
  by (induction ks) (auto split: option.splits)

lemma choose_loop_Some:
  "choose_loop ks mp cl = Some k \<Longrightarrow> k \<in> set ks \<and> (\<exists>c. mp k = Some c \<and> c \<in> cl)"
  by (induction ks) (auto split: option.splits if_splits)

lemma choose_loop_finds:
  "k \<in> set ks \<Longrightarrow> mp k = Some c \<Longrightarrow> c \<in> cl \<Longrightarrow> \<exists>k'. choose_loop ks mp cl = Some k'"
  by (induction ks) (auto split: option.splits)

lemma Choose_Some:
  "Choose order agg w = (Some k, agg') \<Longrightarrow>
   k \<in> set order \<and> (\<exists>c. mu_m agg k = Some c \<and> c \<in> closed w) \<and>
   agg' = agg\<lparr>mu_m := (mu_m agg)(k := None)\<rparr>"
  by (auto simp: Choose_def split: option.splits dest: choose_loop_Some)

lemma Choose_None:
  "(\<And>k c. mu_m agg k = Some c \<Longrightarrow> c \<notin> closed w) \<Longrightarrow> Choose order agg w = (None, agg)"
  by (simp add: Choose_def choose_loop_None)

text \<open>
  C6. When no registration's captured channel is closed (in particular when the
  registry is empty) \<open>Choose\<close> returns nothing and leaves the registry as it was; a
  registration that \<open>Choose\<close> returns and removes is one whose captured channel is
  closed, and no other registration is touched.
\<close>

theorem Choose_only_fired:
  "((\<forall>k c. mu_m agg k = Some c \<longrightarrow> c \<notin> closed w) \<longrightarrow> Choose order agg w = (None, agg)) \<and>
   Choose order NewAggregation w = (None, NewAggregation) \<and>
   (\<forall>k agg'. Choose order agg w = (Some k, agg') \<longrightarrow>
      (\<exists>c. mu_m agg k = Some c \<and> c \<in> closed w) \<and>
      mu_m agg' = (mu_m agg)(k := None))"
proof (intro conjI impI allI)
  assume "\<forall>k c. mu_m agg k = Some c \<longrightarrow> c \<notin> closed w"
  then show "Choose order agg w = (None, agg)"
    by (intro Choose_None) blast
next
  show "Choose order NewAggregation w = (None, NewAggregation)"
    by (intro Choose_None) (simp add: NewAggregation_def)
next
  fix k agg'
  assume c: "Choose order agg w = (Some k, agg')"
  from Choose_Some [OF c] show "\<exists>c. mu_m agg k = Some c \<and> c \<in> closed w"
    by blast
  from Choose_Some [OF c] show "mu_m agg' = (mu_m agg)(k := None)"
    by simp
qed

lemma world_set_eq:
  "world_set =
     \<lparr>vars = [0 \<mapsto> (6, Suc 0)], ctxs = Map.empty, closed = {0}, next_chan = Suc (Suc 0),
      next_var = Suc 0, next_ctx = 0, goroutines = []\<rparr>"
  by (simp add: world_set_def world_one_eq Set_var_def make_chan_def close_chan_def)

lemma agg_one_eq: "Aggregate NewAggregation 0 world_one = Some (5, agg_one)"
  by (simp add: Aggregate_def Get_def world_one_eq NewAggregation_def agg_one_def)

theorem Choose_only_fired_witness:
  "Choose [0] agg_one world_one = (None, agg_one) \<and>
   Choose [0] agg_one world_set = (Some 0, NewAggregation) \<and>
   mu_m agg_one 0 = Some 0 \<and> 0 \<in> closed world_set \<and>
   mu_m NewAggregation = (mu_m agg_one)(0 := None)"
proof -
  have h: "\<forall>k c. mu_m agg_one k = Some c \<longrightarrow> c \<notin> closed world_one"
    by (simp add: agg_one_def world_one_eq)
  have c: "Choose [0] agg_one world_set = (Some 0, NewAggregation)"
    by (simp add: Choose_def agg_one_def world_set_eq NewAggregation_def)
  from Choose_only_fired [of agg_one world_one "[0]"] h
  have 1: "Choose [0] agg_one world_one = (None, agg_one)" by blast
  from Choose_only_fired [of agg_one world_set "[0]"] c
  have 2: "(\<exists>c. mu_m agg_one 0 = Some c \<and> c \<in> closed world_set) \<and>
      mu_m NewAggregation = (mu_m agg_one)(0 := None)" by blast
  from 1 2 c show ?thesis by (simp add: agg_one_def world_set_eq)
qed

section \<open>Registration\<close>

lemma Aggregate_Some:
  "Get w v = Some (x, ch) \<Longrightarrow>
   Aggregate agg v w = Some (x, agg\<lparr>mu_m := (mu_m agg)(v \<mapsto> ch)\<rparr>)"
  by (simp add: Aggregate_def)

lemma Aggregate_SomeD:
  "Aggregate agg v w = Some (x, agg') \<Longrightarrow>
   \<exists>ch. Get w v = Some (x, ch) \<and> agg' = agg\<lparr>mu_m := (mu_m agg)(v \<mapsto> ch)\<rparr>"
  by (auto simp: Aggregate_def split: option.splits)

lemma choose_loop_only:
  assumes "k \<in> set ks" and "mp k = Some c" and "c \<in> cl"
    and "\<And>k' c'. k' \<noteq> k \<Longrightarrow> mp k' = Some c' \<Longrightarrow> c' \<notin> cl"
  shows "choose_loop ks mp cl = Some k"
proof -
  from assms(1-3) obtain k' where k': "choose_loop ks mp cl = Some k'"
    using choose_loop_finds by blast
  from choose_loop_Some [OF k'] assms(4) have "k' = k"
    by blast
  with k' show ?thesis by simp
qed

text \<open>
  C8. The handle that \<open>Choose\<close> returns is the pointer under which \<open>Aggregate\<close> stored
  the registration: \<open>Aggregate\<close> files the captured channel under the variable itself,
  every handle returned later is a key of the registry (the variable just registered
  or one registered before), and when the registered variable is the one whose
  captured channel is closed, \<open>Choose\<close> returns that very variable.
\<close>

theorem Choose_returns_registered_cell:
  assumes "Aggregate agg v w = Some (x, agg1)"
  shows "(\<exists>ch. Get w v = Some (x, ch) \<and> mu_m agg1 v = Some ch) \<and>
         (\<forall>order w' k agg2. Choose order agg1 (w' :: 'a world) = (Some k, agg2) \<longrightarrow>
            k = v \<or> k \<in> dom (mu_m agg)) \<and>
         (\<forall>order w' ch. range_order agg1 order \<and> mu_m agg1 v = Some ch \<and> ch \<in> closed w' \<and>
            (\<forall>k c. k \<noteq> v \<and> mu_m agg1 k = Some c \<longrightarrow> c \<notin> closed w') \<longrightarrow>
            Choose order agg1 (w' :: 'a world) = (Some v, agg1\<lparr>mu_m := (mu_m agg1)(v := None)\<rparr>))"
proof (intro conjI allI impI)
  from Aggregate_SomeD [OF assms] obtain ch where
    g: "Get w v = Some (x, ch)" and a: "agg1 = agg\<lparr>mu_m := (mu_m agg)(v \<mapsto> ch)\<rparr>"
    by blast
  from g a show "\<exists>ch. Get w v = Some (x, ch) \<and> mu_m agg1 v = Some ch"
    by simp
  {
    fix order k agg2 and w' :: "'a world"
    assume c: "Choose order agg1 w' = (Some k, agg2)"
    from Choose_Some [OF c] obtain c' where "mu_m agg1 k = Some c'"
      by blast
    with a show "k = v \<or> k \<in> dom (mu_m agg)"
      by (auto split: if_splits)
  }
  {
    fix order ch and w' :: "'a world"
    assume h: "range_order agg1 order \<and> mu_m agg1 v = Some ch \<and> ch \<in> closed w' \<and>
            (\<forall>k c. k \<noteq> v \<and> mu_m agg1 k = Some c \<longrightarrow> c \<notin> closed w')"
    then have "v \<in> set order"
      by (auto simp: range_order_def)
    with h have "choose_loop order (mu_m agg1) (closed w') = Some v"
      by (intro choose_loop_only [where c = ch]) auto
    then show "Choose order agg1 w' = (Some v, agg1\<lparr>mu_m := (mu_m agg1)(v := None)\<rparr>)"
      by (simp add: Choose_def)
  }
qed

theorem Choose_returns_registered_cell_witness:
  "Aggregate NewAggregation 0 world_one = Some (5, agg_one) \<and>
   Get world_one 0 = Some (5, 0) \<and> mu_m agg_one 0 = Some 0 \<and>
   Choose [0] agg_one world_set = (Some 0, agg_one\<lparr>mu_m := (mu_m agg_one)(0 := None)\<rparr>)"
proof -
  have r: "range_order agg_one [0] \<and> mu_m agg_one 0 = Some 0 \<and> 0 \<in> closed world_set \<and>
            (\<forall>k c. k \<noteq> 0 \<and> mu_m agg_one k = Some c \<longrightarrow> c \<notin> closed world_set)"
    by (simp add: range_order_def agg_one_def world_set_eq)
  from Choose_returns_registered_cell [OF agg_one_eq] r
  have "Choose [0] agg_one world_set = (Some 0, agg_one\<lparr>mu_m := (mu_m agg_one)(0 := None)\<rparr>)"
    by blast
  with agg_one_eq show ?thesis
    by (simp add: agg_one_def world_one_eq Get_def)
qed

text \<open>
  C1 as the specification states it fails: registering variable 0 again after it was
  set replaces the captured channel 0 (closed by the \<open>Set\<close>) by the variable's current
  channel 1, and the change that \<open>Choose\<close> would have reported is reported no more.
\<close>

theorem Aggregate_again_disturbs_counterexample:
  "0 \<in> dom (mu_m agg_one) \<and>
   Aggregate agg_one 0 world_set = Some (6, agg_two) \<and>
   mu_m agg_one 0 = Some 0 \<and> mu_m agg_two 0 = Some (Suc 0) \<and>
   mu_m agg_two 0 \<noteq> mu_m agg_one 0 \<and>
   fst (Choose [0] agg_one world_set) = Some 0 \<and>
   fst (Choose [0] agg_two world_set) = None"
  by (simp add: agg_one_def agg_two_def world_set_eq Aggregate_def Get_def Choose_def)

text \<open>
  C1, amended. Registering a variable that is already in the registry returns the
  variable's current value, leaves \<open>Len\<close> and every other registration as they were,
  and stores the variable's current channel as the captured one: the registry is
  unchanged when the captured channel is still the current one (the variable has not
  changed since it was registered), and otherwise the registration is armed anew
  against the current generation.
\<close>

theorem Aggregate_again:
  assumes "v \<in> dom (mu_m agg)" and "Get w v = Some (x, ch)"
  shows "\<exists>agg'. Aggregate agg v w = Some (x, agg') \<and>
           Len agg' = Len agg \<and>
           dom (mu_m agg') = dom (mu_m agg) \<and>
           mu_m agg' v = Some ch \<and>
           (\<forall>k. k \<noteq> v \<longrightarrow> mu_m agg' k = mu_m agg k) \<and>
           (mu_m agg v = Some ch \<longrightarrow> agg' = agg)"
proof -
  let ?agg' = "agg\<lparr>mu_m := (mu_m agg)(v \<mapsto> ch)\<rparr>"
  have 1: "Aggregate agg v w = Some (x, ?agg')"
    by (rule Aggregate_Some [OF assms(2)])
  from assms(1) have 2: "dom (mu_m ?agg') = dom (mu_m agg)"
    by auto
  then have 3: "Len ?agg' = Len agg"
    by (simp only: Len_def)
  have 4: "mu_m agg v = Some ch \<longrightarrow> ?agg' = agg"
    by (auto simp: fun_upd_idem)
  from 1 2 3 4 show ?thesis
    by simp
qed

theorem Aggregate_again_witness:
  "0 \<in> dom (mu_m agg_one) \<and> Get world_one 0 = Some (5, 0) \<and> Get world_set 0 = Some (6, Suc 0) \<and>
   Aggregate agg_one 0 world_one = Some (5, agg_one) \<and>
   Aggregate agg_one 0 world_set = Some (6, agg_two) \<and>
   Len agg_two = Len agg_one \<and> Len agg_one = 1"
proof -
  have d: "0 \<in> dom (mu_m agg_one)"
    by (simp add: agg_one_def)
  have g1: "Get world_one 0 = Some (5, 0)"
    by (simp add: world_one_eq Get_def)
  have g2: "Get world_set 0 = Some (6, Suc 0)"
    by (simp add: world_set_eq Get_def)
  have m: "mu_m agg_one 0 = Some 0"
    by (simp add: agg_one_def)
  from Aggregate_again [OF d g1] m have a1: "Aggregate agg_one 0 world_one = Some (5, agg_one)"
    by auto
  from Aggregate_again [OF d g2] obtain agg' where
    a2: "Aggregate agg_one 0 world_set = Some (6, agg')" and l: "Len agg' = Len agg_one"
    by blast
  have e: "Aggregate agg_one 0 world_set = Some (6, agg_two)"
    by (simp add: Aggregate_def g2 agg_one_def agg_two_def)
  from a2 e have "agg' = agg_two" by simp
  with l have l2: "Len agg_two = Len agg_one" by simp
  have "Len agg_one = 1"
    by (simp add: Len_def agg_one_def)
  with d g1 g2 a1 e l2 show ?thesis by simp
qed

section \<open>Waiting for any change\<close>

lemma updated_loop_iff: "updated_loop chs cl \<longleftrightarrow> (\<exists>c\<in>set chs. c \<in> cl)"
  by (induction chs) auto

lemma set_map_filter: "set (List.map_filter f xs) = {y. \<exists>x\<in>set xs. f x = Some y}"
  by (induction xs) (auto simp: List.map_filter_simps split: option.splits)

lemma toWatch_ran:
  "range_order agg order \<Longrightarrow> set (List.map_filter (mu_m agg) order) = ran (mu_m agg)"
  by (auto simp: set_map_filter range_order_def ran_def)

lemma Updated_fired:
  assumes "ctxs w ctx = Some done" and "updated_loop (List.map_filter (mu_m agg) order) (closed w)"
  shows "Updated order agg ctx w =
           Some (next_chan w, w\<lparr>next_chan := Suc (next_chan w), closed := insert (next_chan w) (closed w)\<rparr>)"
  using assms by (simp add: Updated_def make_chan_def close_chan_def)

lemma Updated_waiting:
  assumes "ctxs w ctx = Some done" and "\<not> updated_loop (List.map_filter (mu_m agg) order) (closed w)"
  shows "Updated order agg ctx w =
           Some (next_chan w,
                 w\<lparr>next_chan := Suc (next_chan w),
                   goroutines := goroutines w @ [(done # List.map_filter (mu_m agg) order, next_chan w)]\<rparr>)"
  using assms by (simp add: Updated_def make_chan_def)

lemma goroutine_step_last:
  assumes "goroutines w = gs @ [(cases, ret)]" and "select_ready cases (closed w)"
  shows "goroutine_step (length gs) w = close_chan ret (w\<lparr>goroutines := gs\<rparr>)"
  using assms by (simp add: goroutine_step_def)

lemma world_cancelled_eq:
  "world_cancelled =
     \<lparr>vars = Map.empty, ctxs = [0 \<mapsto> 0], closed = {0}, next_chan = Suc 0,
      next_var = 0, next_ctx = Suc 0, goroutines = []\<rparr>"
  by (simp add: world_cancelled_def WithCancel_def Cancel_def make_chan_def close_chan_def
      empty_world_def)

text \<open>
  C2 as the specification states it fails for the cancellation: with an empty registry
  and a context that is already cancelled, \<open>Updated\<close> returns an open channel and
  leaves a goroutine behind.
\<close>

theorem Updated_cancelled_not_synchronous_counterexample:
  "ctxs world_cancelled 0 = Some 0 \<and> 0 \<in> closed world_cancelled \<and>
   map_option fst (Updated [] NewAggregation 0 world_cancelled) = Some (Suc 0) \<and>
   Suc 0 \<notin> closed (snd (the (Updated [] NewAggregation 0 world_cancelled))) \<and>
   goroutines world_cancelled = [] \<and>
   goroutines (snd (the (Updated [] NewAggregation 0 world_cancelled))) = [([0], Suc 0)]"
  by (simp add: world_cancelled_eq Updated_def NewAggregation_def make_chan_def
      List.map_filter_simps)

text \<open>
  C2, amended. When the captured channel of at least one registration is closed at the
  call, \<open>Updated\<close> returns a channel that is already closed and starts no goroutine.
  When none is, it returns an open channel and starts one goroutine that watches the
  context's channel and the captured channels, also when the context is already
  cancelled; in that case the goroutine's first scheduling closes the returned channel
  and ends the goroutine.
\<close>

theorem Updated_synchronous_when_fired:
  assumes "wf_world w" and "range_order agg order" and "ctxs w ctx = Some done"
  shows "((\<exists>k c. mu_m agg k = Some c \<and> c \<in> closed w) \<longrightarrow>
            (\<exists>ret w'. Updated order agg ctx w = Some (ret, w') \<and> ret \<in> closed w' \<and>
               ret \<notin> closed w \<and> goroutines w' = goroutines w)) \<and>
         ((\<forall>k c. mu_m agg k = Some c \<longrightarrow> c \<notin> closed w) \<longrightarrow>
            (\<exists>ret w' toWatch. Updated order agg ctx w = Some (ret, w') \<and> ret \<notin> closed w' \<and>
               set toWatch = ran (mu_m agg) \<and>
               goroutines w' = goroutines w @ [(done # toWatch, ret)] \<and>
               (done \<in> closed w \<longrightarrow>
                  ret \<in> closed (goroutine_step (length (goroutines w)) w') \<and>
                  goroutines (goroutine_step (length (goroutines w)) w') = goroutines w)))"
proof (intro conjI impI)
  let ?toWatch = "List.map_filter (mu_m agg) order"
  from assms(1) have fresh: "next_chan w \<notin> closed w"
    by (auto simp: wf_world_def)
  {
    assume "\<exists>k c. mu_m agg k = Some c \<and> c \<in> closed w"
    then have "\<exists>c\<in>ran (mu_m agg). c \<in> closed w"
      by (auto simp: ran_def)
    then have "updated_loop ?toWatch (closed w)"
      by (simp add: updated_loop_iff toWatch_ran [OF assms(2)])
    from Updated_fired [OF assms(3) this] fresh
    show "\<exists>ret w'. Updated order agg ctx w = Some (ret, w') \<and> ret \<in> closed w' \<and>
               ret \<notin> closed w \<and> goroutines w' = goroutines w"
      by simp
  }
  {
    assume "\<forall>k c. mu_m agg k = Some c \<longrightarrow> c \<notin> closed w"
    then have "\<not> (\<exists>c\<in>ran (mu_m agg). c \<in> closed w)"
      by (auto simp: ran_def)
    then have n: "\<not> updated_loop ?toWatch (closed w)"
      by (simp add: updated_loop_iff toWatch_ran [OF assms(2)])
    let ?w' = "w\<lparr>next_chan := Suc (next_chan w),
                   goroutines := goroutines w @ [(done # ?toWatch, next_chan w)]\<rparr>"
    have u: "Updated order agg ctx w = Some (next_chan w, ?w')"
      by (rule Updated_waiting [OF assms(3) n])
    have g: "goroutines ?w' = goroutines w @ [(done # ?toWatch, next_chan w)]"
      by simp
    have s: "done \<in> closed w \<longrightarrow>
               goroutine_step (length (goroutines w)) ?w' = close_chan (next_chan w) (?w'\<lparr>goroutines := goroutines w\<rparr>)"
      by (intro impI goroutine_step_last [OF g]) (simp add: select_ready_def)
    from u fresh s toWatch_ran [OF assms(2)]
    show "\<exists>ret w' toWatch. Updated order agg ctx w = Some (ret, w') \<and> ret \<notin> closed w' \<and>
               set toWatch = ran (mu_m agg) \<and>
               goroutines w' = goroutines w @ [(done # toWatch, ret)] \<and>
               (done \<in> closed w \<longrightarrow>
                  ret \<in> closed (goroutine_step (length (goroutines w)) w') \<and>
                  goroutines (goroutine_step (length (goroutines w)) w') = goroutines w)"
      by (auto simp: close_chan_def)
  }
qed

lemma world_set_ctx_eq:
  "world_set_ctx =
     \<lparr>vars = [0 \<mapsto> (6, Suc 0)], ctxs = [0 \<mapsto> Suc (Suc 0)], closed = {0},
      next_chan = Suc (Suc (Suc 0)), next_var = Suc 0, next_ctx = Suc 0, goroutines = []\<rparr>"
  by (simp add: world_set_ctx_def world_set_eq WithCancel_def make_chan_def)

theorem Updated_synchronous_when_fired_witness:
  "(\<exists>ret w'. Updated [0] agg_one 0 world_set_ctx = Some (ret, w') \<and> ret \<in> closed w' \<and>
      ret \<notin> closed world_set_ctx \<and> goroutines w' = goroutines world_set_ctx) \<and>
   (\<exists>ret w' toWatch. Updated [] NewAggregation 0 world_cancelled = Some (ret, w') \<and>
      ret \<notin> closed w' \<and> goroutines w' = goroutines world_cancelled @ [(0 # toWatch, ret)] \<and>
      ret \<in> closed (goroutine_step (length (goroutines world_cancelled)) w') \<and>
      goroutines (goroutine_step (length (goroutines world_cancelled)) w') = goroutines world_cancelled)"
proof -
  have wf1: "wf_world world_set_ctx"
    by (simp add: wf_world_def world_set_ctx_eq)
  have r1: "range_order agg_one [0]"
    by (simp add: range_order_def agg_one_def)
  have c1: "ctxs world_set_ctx 0 = Some (Suc (Suc 0))"
    by (simp add: world_set_ctx_eq)
  have f1: "\<exists>k c. mu_m agg_one k = Some c \<and> c \<in> closed world_set_ctx"
    by (simp add: agg_one_def world_set_ctx_eq)
  have wf2: "wf_world world_cancelled"
    by (simp add: wf_world_def world_cancelled_eq)
  have r2: "range_order NewAggregation []"
    by (simp add: range_order_def NewAggregation_def)
  have c2: "ctxs world_cancelled 0 = Some 0"
    by (simp add: world_cancelled_eq)
  have f2: "\<forall>k c. mu_m NewAggregation k = Some c \<longrightarrow> c \<notin> closed world_cancelled"
    by (simp add: NewAggregation_def)
  have d2: "0 \<in> closed world_cancelled"
    by (simp add: world_cancelled_eq)
  from Updated_synchronous_when_fired [OF wf1 r1 c1] f1
  have 1: "\<exists>ret w'. Updated [0] agg_one 0 world_set_ctx = Some (ret, w') \<and> ret \<in> closed w' \<and>
      ret \<notin> closed world_set_ctx \<and> goroutines w' = goroutines world_set_ctx"
    by blast
  from Updated_synchronous_when_fired [OF wf2 r2 c2] f2 d2
  have 2: "\<exists>ret w' toWatch. Updated [] NewAggregation 0 world_cancelled = Some (ret, w') \<and>
      ret \<notin> closed w' \<and> goroutines w' = goroutines world_cancelled @ [(0 # toWatch, ret)] \<and>
      ret \<in> closed (goroutine_step (length (goroutines world_cancelled)) w') \<and>
      goroutines (goroutine_step (length (goroutines world_cancelled)) w') = goroutines world_cancelled"
    by blast
  from 1 2 show ?thesis by blast
qed

section \<open>Consume once\<close>

lemma Choose_result:
  "Choose order agg w = (h, agg1) \<Longrightarrow>
   dom (mu_m agg1) \<subseteq> dom (mu_m agg) \<and> (\<forall>k. h = Some k \<longrightarrow> k \<in> dom (mu_m agg))"
  by (cases h) (auto simp: Choose_def split: option.splits if_splits dest: choose_loop_Some)

lemma exec_keeps_unregistered:
  assumes "exec x (agg, w) = Some (r, agg1, w1)" and "k \<notin> dom (mu_m agg)" and "x \<noteq> OpAggregate k"
  shows "k \<notin> dom (mu_m agg1) \<and> r \<noteq> RHandle (Some k)"
proof (cases x)
  case (OpWorld ev)
  with assms show ?thesis by auto
next
  case (OpAggregate v)
  with assms show ?thesis
    by (auto dest!: Aggregate_SomeD)
next
  case (OpChoose order)
  with assms show ?thesis
    by (auto split: prod.splits dest!: Choose_result)
next
  case OpLen
  with assms show ?thesis by auto
next
  case (OpUpdated order ctx)
  with assms show ?thesis by auto
qed

lemma run_keeps_unregistered:
  "run xs (agg, w) = Some (rs, agg1, w1) \<Longrightarrow> k \<notin> dom (mu_m agg) \<Longrightarrow> OpAggregate k \<notin> set xs \<Longrightarrow>
   k \<notin> dom (mu_m agg1) \<and> RHandle (Some k) \<notin> set rs"
proof (induction xs arbitrary: agg w rs)
  case Nil
  then show ?case by simp
next
  case (Cons x xs)
  from Cons.prems(1) obtain r agg2 w2 rs2 where
    e: "exec x (agg, w) = Some (r, agg2, w2)" and
    r: "run xs (agg2, w2) = Some (rs2, agg1, w1)" and rs: "rs = r # rs2"
    by (auto split: option.splits)
  from Cons.prems(3) have ne: "x \<noteq> OpAggregate k" and nin: "OpAggregate k \<notin> set xs"
    by auto
  from exec_keeps_unregistered [OF e Cons.prems(2) ne]
  have k2: "k \<notin> dom (mu_m agg2)" and r2: "r \<noteq> RHandle (Some k)"
    by simp_all
  from Cons.IH [OF r k2 nin] r2 rs show ?case
    by simp
qed

text \<open>
  C3. When \<open>Choose\<close> returns the handle of a variable, the variable was registered and
  is registered no more, \<open>Len\<close> is smaller by exactly one, and in every run that
  follows and does not register the variable again, no \<open>Choose\<close> returns it and it
  stays out of the registry.
\<close>

theorem Choose_consumes_once:
  assumes "range_order agg order" and "Choose order agg w = (Some k, agg')"
  shows "k \<in> dom (mu_m agg) \<and> k \<notin> dom (mu_m agg') \<and> Len agg' + 1 = Len agg \<and>
         (\<forall>xs rs agg2 w2. OpAggregate k \<notin> set (xs :: ('a, 'e) op list) \<and>
            run xs (agg', w :: 'a world) = Some (rs, agg2, w2) \<longrightarrow>
            RHandle (Some k) \<notin> set rs \<and> k \<notin> dom (mu_m agg2))"
proof -
  from Choose_Some [OF assms(2)] have
    k: "k \<in> dom (mu_m agg)" and a: "agg' = agg\<lparr>mu_m := (mu_m agg)(k := None)\<rparr>"
    by auto
  from a have nk: "k \<notin> dom (mu_m agg')"
    by simp
  from assms(1) have fin: "finite (dom (mu_m agg))"
    by (metis List.finite_set range_order_def)
  from a have "dom (mu_m agg') = dom (mu_m agg) - {k}"
    by auto
  with fin k have "Suc (card (dom (mu_m agg'))) = card (dom (mu_m agg))"
    by (simp only: card_Suc_Diff1)
  then have len: "Len agg' + 1 = Len agg"
    by (simp add: Len_def)
  have later: "\<forall>xs rs agg2 w2. OpAggregate k \<notin> set (xs :: ('a, 'e) op list) \<and>
            run xs (agg', w) = Some (rs, agg2, w2) \<longrightarrow>
            RHandle (Some k) \<notin> set rs \<and> k \<notin> dom (mu_m agg2)"
    using run_keeps_unregistered [OF _ nk] by blast
  from k nk len later show ?thesis
    by blast
qed

theorem Choose_consumes_once_witness:
  "range_order agg_one [0] \<and> Choose [0] agg_one world_set = (Some 0, NewAggregation) \<and>
   Len NewAggregation + 1 = Len agg_one \<and>
   run [OpChoose [0], OpWorld (EvSet 0 8 :: (int, string) event), OpChoose [0]] (NewAggregation, world_set) \<noteq> None \<and>
   RHandle (Some 0) \<notin> set (fst (the (run [OpChoose [0], OpWorld (EvSet 0 8 :: (int, string) event), OpChoose [0]]
      (NewAggregation, world_set))))"
proof -
  let ?xs = "[OpChoose [0], OpWorld (EvSet 0 8 :: (int, string) event), OpChoose [0]]"
  have r: "range_order agg_one [0]"
    by (simp add: range_order_def agg_one_def)
  have c: "Choose [0] agg_one world_set = (Some 0, NewAggregation)"
    by (simp add: Choose_def agg_one_def world_set_eq NewAggregation_def)
  have n: "OpAggregate 0 \<notin> set ?xs"
    by simp
  have "run ?xs (NewAggregation, world_set) \<noteq> None"
    by (simp add: Choose_def NewAggregation_def world_set_eq Set_var_def make_chan_def close_chan_def)
  then obtain rs agg2 w2 where e: "run ?xs (NewAggregation, world_set) = Some (rs, agg2, w2)"
    by auto
  from Choose_consumes_once [OF r c] n e have "RHandle (Some 0) \<notin> set rs" and "Len NewAggregation + 1 = Len agg_one"
    by blast+
  with r c e show ?thesis
    by simp
qed

section \<open>The snapshot of a call to Updated\<close>
































section \<open>The values that WaitForChange returns\<close>









end
